theory Spec2Isabelle
  imports Main
begin

section \<open>Values, dictionaries and exceptions\<close>

text \<open>
  The values that reach the functions of \<^verbatim>\<open>app.py\<close> are the values of Python's
  \<^verbatim>\<open>json\<close> module and of a submitted form: \<^verbatim>\<open>None\<close>, booleans, integers, strings,
  lists and dictionaries with string keys. A dictionary is an association list in
  insertion order; a Python dictionary has each key once (\<open>wf_val\<close> below).
\<close>

datatype pyval =
    PNone
  | PBool bool
  | PInt int
  | PStr string
  | PList "pyval list"
  | PDict "(string \<times> pyval) list"

type_synonym dict = "(string \<times> pyval) list"

text \<open>
  The exceptions that the modelled code raises. \<open>Unsupported\<close> is not one of them: it is
  the answer of the model of \<^verbatim>\<open>json.load\<close> on a text that it does not cover, and no
  statement is made about what Python does there.
\<close>

datatype error = AttributeError | KeyError | TypeError | JSONDecodeError | BadRequestKeyError
  | Unsupported

text \<open>\<^verbatim>\<open>d.get(k, default)\<close>\<close>

definition dict_get :: "dict \<Rightarrow> string \<Rightarrow> pyval \<Rightarrow> pyval" where
  "dict_get d k dflt = (case map_of d k of Some v \<Rightarrow> v | None \<Rightarrow> dflt)"

section \<open>Strings\<close>

text \<open>
  \<^verbatim>\<open>str.isspace\<close> on the characters with code below 256: tab, line feed, vertical tab,
  form feed, carriage return, the four separators 28 to 31, space, next line (133) and
  the no-break space (160).
\<close>

definition is_space :: "char \<Rightarrow> bool" where
  "is_space c = (of_char c \<in> {9, 10, 11, 12, 13, 28, 29, 30, 31, 32, 133, 160 :: nat})"

text \<open>\<^verbatim>\<open>s.strip()\<close>: white space is removed at both ends.\<close>

definition strip :: "string \<Rightarrow> string" where
  "strip s = rev (dropWhile is_space (rev (dropWhile is_space s)))"

text \<open>\<^verbatim>\<open>sep.join(xs)\<close>\<close>

fun join :: "string \<Rightarrow> string list \<Rightarrow> string" where
  "join sep [] = []"
| "join sep [x] = x"
| "join sep (x # y # ys) = x @ sep @ join sep (y # ys)"

text \<open>
  \<^verbatim>\<open>v.strip()\<close> on any value: only a string has the method, every other value raises
  \<^verbatim>\<open>AttributeError\<close>.
\<close>

fun py_strip :: "pyval \<Rightarrow> error + string" where
  "py_strip (PStr s) = Inr (strip s)"
| "py_strip _ = Inl AttributeError"

text \<open>A string that is empty or holds white space only.\<close>

definition blank :: "string \<Rightarrow> bool" where
  "blank s = list_all is_space s"

section \<open>The validator\<close>

definition required_fields :: "string list" where
  "required_fields = [''code'', ''name'', ''instructor'']"

text \<open>
  The comprehension \<^verbatim>\<open>[field for field in fields if not data.get(field, "").strip()]\<close>:
  the fields are visited in order, the first \<^verbatim>\<open>.strip()\<close> that raises ends the
  comprehension, and a field is kept when the stripped string is empty (falsy).
\<close>

fun empty_of :: "dict \<Rightarrow> string list \<Rightarrow> error + string list" where
  "empty_of data [] = Inr []"
| "empty_of data (field # flds) =
     (case py_strip (dict_get data field (PStr [])) of
        Inl e \<Rightarrow> Inl e
      | Inr s \<Rightarrow>
          (case empty_of data flds of
             Inl e \<Rightarrow> Inl e
           | Inr r \<Rightarrow> Inr (if s = [] then field # r else r)))"

text \<open>
  \<^verbatim>\<open>validate_course(data)\<close> returns a pair: \<^verbatim>\<open>False\<close>, \<^verbatim>\<open>"warning"\<close> or \<^verbatim>\<open>True\<close>, and a
  message. The span attributes and the log lines it writes do not change what it returns
  and are left out.
\<close>

definition validate_course :: "dict \<Rightarrow> error + (pyval \<times> string)" where
  "validate_course data =
     (case empty_of data required_fields of
        Inl e \<Rightarrow> Inl e
      | Inr empty_fields \<Rightarrow>
          if empty_fields \<noteq> [] then
            Inr (PBool False, ''Error: Missing required fields - '' @ join '', '' empty_fields)
          else
            (case empty_of data (map fst data) of
               Inl e \<Rightarrow> Inl e
             | Inr warning_fields \<Rightarrow>
                 if warning_fields \<noteq> [] then
                   Inr (PStr ''warning'',
                        ''Warning: Fields '' @ join '', '' warning_fields @ '' are empty'')
                 else Inr (PBool True, ''Validation successful'')))"

text \<open>The field holds a string (executable test).\<close>

fun is_str :: "pyval \<Rightarrow> bool" where
  "is_str (PStr s) = True"
| "is_str _ = False"

text \<open>Every value of the record is a string.\<close>

definition all_str :: "dict \<Rightarrow> bool" where
  "all_str data = list_all (\<lambda>kv. is_str (snd kv)) data"

text \<open>The field is present and holds a string that is not blank.\<close>

definition filled :: "dict \<Rightarrow> string \<Rightarrow> bool" where
  "filled data k = (case map_of data k of Some (PStr s) \<Rightarrow> \<not> blank s | _ \<Rightarrow> False)"

text \<open>The field is present and holds a blank string.\<close>

definition supplied_blank :: "dict \<Rightarrow> string \<Rightarrow> bool" where
  "supplied_blank data k = (case map_of data k of Some (PStr s) \<Rightarrow> blank s | _ \<Rightarrow> False)"

text \<open>The field is absent, or present and holding a blank string.\<close>

definition missing :: "dict \<Rightarrow> string \<Rightarrow> bool" where
  "missing data k = (case map_of data k of None \<Rightarrow> True | Some (PStr s) \<Rightarrow> blank s | _ \<Rightarrow> False)"

text \<open>The field is present and holds a value that is not a string.\<close>

definition nonstr_at :: "dict \<Rightarrow> string \<Rightarrow> bool" where
  "nonstr_at data k = (case map_of data k of None \<Rightarrow> False | Some v \<Rightarrow> \<not> is_str v)"

text \<open>
  \<^verbatim>\<open>s.capitalize()\<close>, used by \<^verbatim>\<open>add_course\<close> on the names of the required fields only:
  the first letter in upper case, the others in lower case (letters a to z).
\<close>

definition to_upper :: "char \<Rightarrow> char" where
  "to_upper c =
     (if (97::nat) \<le> of_char c \<and> of_char c \<le> (122::nat) then char_of (of_char c - (32::nat)) else c)"

definition to_lower :: "char \<Rightarrow> char" where
  "to_lower c =
     (if (65::nat) \<le> of_char c \<and> of_char c \<le> (90::nat) then char_of (of_char c + (32::nat)) else c)"

fun capitalize :: "string \<Rightarrow> string" where
  "capitalize [] = []"
| "capitalize (c # cs) = to_upper c # map to_lower cs"

section \<open>The JSON text of the catalog file\<close>

text \<open>
  The catalog file holds text. \<^verbatim>\<open>json.dump(courses, file, indent=4)\<close> and
  \<^verbatim>\<open>json.load(file)\<close> belong to Python's library, not to this repository; they are
  modelled here on the values of \<open>pyval\<close> and on texts whose characters have a code
  below 256. Numbers are integers: a number with a fraction or an exponent, \<^verbatim>\<open>NaN\<close>,
  \<^verbatim>\<open>Infinity\<close> and an escape \<^verbatim>\<open>\uXXXX\<close> above 255 have no value in \<open>pyval\<close>, and the decoder
  answers \<open>Unsupported\<close> for them (see \<open>error\<close>).
\<close>

subsection \<open>The encoder\<close>

definition digit_char :: "nat \<Rightarrow> char" where
  "digit_char d = char_of (48 + d)"

text \<open>The decimal digits of a natural number, as \<^verbatim>\<open>int.__repr__\<close> writes them.\<close>

function show_nat :: "nat \<Rightarrow> string" where
  "show_nat n = (if n < 10 then [digit_char n] else show_nat (n div 10) @ [digit_char (n mod 10)])"
  by pat_completeness auto
termination
  by (relation "measure id") auto

declare show_nat.simps [simp del]

definition show_int :: "int \<Rightarrow> string" where
  "show_int i = (if i < 0 then CHR ''-'' # show_nat (nat (- i)) else show_nat (nat i))"

definition hex_char :: "nat \<Rightarrow> char" where
  "hex_char d = (if d < 10 then char_of (48 + d) else char_of (87 + d))"

text \<open>
  One character of a string literal (\<^verbatim>\<open>ensure_ascii=True\<close>): the quote and the backslash
  are escaped, the five control characters with a short escape get it, the printable
  ASCII characters stand for themselves, and every other character is written as
  \<^verbatim>\<open>\u00XX\<close> with lower-case hexadecimal digits.
\<close>

definition esc_char :: "char \<Rightarrow> string" where
  "esc_char c =
     (if c = CHR 0x22 then [CHR 0x5C, CHR 0x22]
      else if c = CHR 0x5C then [CHR 0x5C, CHR 0x5C]
      else if c = CHR 0x0A then [CHR 0x5C, CHR ''n'']
      else if c = CHR 0x0D then [CHR 0x5C, CHR ''r'']
      else if c = CHR 0x09 then [CHR 0x5C, CHR ''t'']
      else if c = CHR 0x08 then [CHR 0x5C, CHR ''b'']
      else if c = CHR 0x0C then [CHR 0x5C, CHR ''f'']
      else if (32::nat) \<le> of_char c \<and> of_char c \<le> (126::nat) then [c]
      else [CHR 0x5C, CHR ''u'', CHR ''0'', CHR ''0'',
            hex_char (of_char c div 16), hex_char (of_char c mod 16)])"

definition encode_str :: "string \<Rightarrow> string" where
  "encode_str s = CHR 0x22 # concat (map esc_char s) @ [CHR 0x22]"

text \<open>With \<^verbatim>\<open>indent=4\<close> every item starts on a new line, four spaces deeper per level.\<close>

definition newline_indent :: "nat \<Rightarrow> string" where
  "newline_indent level = CHR 0x0A # replicate (4 * level) CHR '' ''"

text \<open>
  The text of a value at a nesting level: an empty list is \<^verbatim>\<open>[]\<close> and an empty
  dictionary \<^verbatim>\<open>{}\<close>; the items are separated by a comma and a new line, a key from its
  value by a colon and a space.
\<close>

fun dumps :: "nat \<Rightarrow> pyval \<Rightarrow> string"
  and dump_items :: "nat \<Rightarrow> pyval list \<Rightarrow> string"
  and dump_members :: "nat \<Rightarrow> (string \<times> pyval) list \<Rightarrow> string" where
  "dumps l PNone = ''null''"
| "dumps l (PBool b) = (if b then ''true'' else ''false'')"
| "dumps l (PInt i) = show_int i"
| "dumps l (PStr s) = encode_str s"
| "dumps l (PList xs) =
     (if xs = [] then ''[]''
      else ''['' @ newline_indent (l + 1) @ dump_items (l + 1) xs @ newline_indent l @ '']'')"
| "dumps l (PDict d) =
     (if d = [] then ''{}''
      else ''{'' @ newline_indent (l + 1) @ dump_members (l + 1) d @ newline_indent l @ ''}'')"
| "dump_items l [] = []"
| "dump_items l (x # xs) =
     dumps l x @ (if xs = [] then [] else '','' @ newline_indent l @ dump_items l xs)"
| "dump_members l [] = []"
| "dump_members l (kv # d) =
     encode_str (fst kv) @ '': '' @ dumps l (snd kv)
       @ (if d = [] then [] else '','' @ newline_indent l @ dump_members l d)"

text \<open>\<^verbatim>\<open>json.dump(v, file, indent=4)\<close>: the text written to the file.\<close>

definition json_dump :: "pyval \<Rightarrow> string" where
  "json_dump v = dumps 0 v"

subsection \<open>The decoder\<close>

text \<open>JSON white space: space, tab, line feed, carriage return.\<close>

definition is_ws :: "char \<Rightarrow> bool" where
  "is_ws c = (c = CHR 0x20 \<or> c = CHR 0x09 \<or> c = CHR 0x0A \<or> c = CHR 0x0D)"

definition skip_ws :: "string \<Rightarrow> string" where
  "skip_ws cs = dropWhile is_ws cs"

definition starts :: "char \<Rightarrow> string \<Rightarrow> bool" where
  "starts c cs = (case cs of [] \<Rightarrow> False | x # xs \<Rightarrow> x = c)"

definition is_digit :: "char \<Rightarrow> bool" where
  "is_digit c = ((48::nat) \<le> of_char c \<and> of_char c \<le> (57::nat))"

definition digit_val :: "char \<Rightarrow> nat" where
  "digit_val c = of_char c - 48"

definition read_nat :: "string \<Rightarrow> nat" where
  "read_nat ds = foldl (\<lambda>a c. 10 * a + digit_val c) 0 ds"

definition hex_val :: "char \<Rightarrow> nat option" where
  "hex_val c =
     (let n = of_char c :: nat in
      if 48 \<le> n \<and> n \<le> 57 then Some (n - 48)
      else if 97 \<le> n \<and> n \<le> 102 then Some (n - 87)
      else if 65 \<le> n \<and> n \<le> 70 then Some (n - 55)
      else None)"

text \<open>The character after a backslash, for the escapes other than \<^verbatim>\<open>\u\<close>.\<close>

definition unescape :: "char \<Rightarrow> char option" where
  "unescape e =
     (if e = CHR 0x22 then Some (CHR 0x22)
      else if e = CHR 0x5C then Some (CHR 0x5C)
      else if e = CHR ''/'' then Some (CHR ''/'')
      else if e = CHR ''b'' then Some (CHR 0x08)
      else if e = CHR ''f'' then Some (CHR 0x0C)
      else if e = CHR ''n'' then Some (CHR 0x0A)
      else if e = CHR ''r'' then Some (CHR 0x0D)
      else if e = CHR ''t'' then Some (CHR 0x09)
      else None)"

definition hex4 :: "char \<Rightarrow> char \<Rightarrow> char \<Rightarrow> char \<Rightarrow> nat option" where
  "hex4 a b c d =
     (case (hex_val a, hex_val b, hex_val c, hex_val d) of
        (Some x, Some y, Some z, Some w) \<Rightarrow> Some (((x * 16 + y) * 16 + z) * 16 + w)
      | _ \<Rightarrow> None)"

text \<open>
  A string literal after its opening quote: the decoded characters so far, then the
  text. It ends at the closing quote and gives the text after it. A control character
  (code below 32), an unknown escape and the end of the text are errors.
\<close>

fun scan_string :: "string \<Rightarrow> string \<Rightarrow> error + (string \<times> string)" where
  "scan_string acc [] = Inl JSONDecodeError"
| "scan_string acc (c # cs) =
     (if c = CHR 0x22 then Inr (acc, cs)
      else if c = CHR 0x5C then
        (case cs of
           [] \<Rightarrow> Inl JSONDecodeError
         | e # cs1 \<Rightarrow>
             if e = CHR ''u'' then
               (case cs1 of
                  h1 # h2 # h3 # h4 # cs2 \<Rightarrow>
                    (case hex4 h1 h2 h3 h4 of
                       None \<Rightarrow> Inl JSONDecodeError
                     | Some n \<Rightarrow>
                         if n < 256 then scan_string (acc @ [char_of n]) cs2
                         else Inl Unsupported)
                | _ \<Rightarrow> Inl JSONDecodeError)
             else
               (case unescape e of
                  None \<Rightarrow> Inl JSONDecodeError
                | Some x \<Rightarrow> scan_string (acc @ [x]) cs1))
      else if (of_char c :: nat) < 32 then Inl JSONDecodeError
      else scan_string (acc @ [c]) cs)"

text \<open>
  The integer part of a number: a single \<open>0\<close>, or a digit from 1 to 9 and the digits
  that follow.
\<close>

definition scan_digits :: "string \<Rightarrow> (string \<times> string) option" where
  "scan_digits cs =
     (case cs of
        [] \<Rightarrow> None
      | c # cs1 \<Rightarrow>
          if c = CHR ''0'' then Some ([c], cs1)
          else if is_digit c then Some (takeWhile is_digit cs, dropWhile is_digit cs)
          else None)"

text \<open>After the integer part: a fraction or an exponent follows, so the number is a float.\<close>

definition float_follows :: "string \<Rightarrow> bool" where
  "float_follows rest =
     (case rest of
        [] \<Rightarrow> False
      | c # r1 \<Rightarrow>
          if c = CHR ''.'' then (case r1 of [] \<Rightarrow> False | d # r2 \<Rightarrow> is_digit d)
          else if c = CHR ''e'' \<or> c = CHR ''E'' then
            (case r1 of
               [] \<Rightarrow> False
             | d # r2 \<Rightarrow>
                 is_digit d \<or>
                 ((d = CHR ''+'' \<or> d = CHR ''-'') \<and> (case r2 of [] \<Rightarrow> False | d2 # r3 \<Rightarrow> is_digit d2)))
          else False)"

text \<open>A number at the start of the text, if there is one.\<close>

definition scan_number :: "string \<Rightarrow> (error + (pyval \<times> string)) option" where
  "scan_number cs =
     (let neg = starts CHR ''-'' cs;
          body = (if neg then tl cs else cs)
      in case scan_digits body of
           None \<Rightarrow> None
         | Some (ds, rest) \<Rightarrow>
             if float_follows rest then Some (Inl Unsupported)
             else Some (Inr (PInt (if neg then - int (read_nat ds) else int (read_nat ds)), rest)))"

text \<open>
  \<^verbatim>\<open>dict(pairs)\<close>: a key that comes again keeps its place and takes the later value.
\<close>

fun dict_set :: "(string \<times> pyval) list \<Rightarrow> string \<Rightarrow> pyval \<Rightarrow> (string \<times> pyval) list" where
  "dict_set [] k v = [(k, v)]"
| "dict_set (p # ps) k v = (if fst p = k then (k, v) # ps else p # dict_set ps k v)"

text \<open>
  The value at the start of a text, and the text after it. \<open>parse_items\<close> reads the
  items of a list that is not empty, from the first character of an item, and
  \<open>parse_members\<close> the members of a dictionary from the quote of a key; both hold what
  they have read so far. The first argument is fuel: each call spends one, and
  \<open>json_load\<close> starts with more than twice the length of the text, which is enough
  (\<open>json_load_fuel\<close>). Python's limits on the nesting depth and on the number of digits
  of an integer are not modelled.
\<close>

fun parse_value :: "nat \<Rightarrow> string \<Rightarrow> error + (pyval \<times> string)"
  and parse_items :: "nat \<Rightarrow> pyval list \<Rightarrow> string \<Rightarrow> error + (pyval \<times> string)"
  and parse_members :: "nat \<Rightarrow> (string \<times> pyval) list \<Rightarrow> string \<Rightarrow> error + (pyval \<times> string)" where
  "parse_value 0 cs = Inl Unsupported"
| "parse_value (Suc n) cs =
     (if starts CHR 0x22 cs then
        (case scan_string [] (tl cs) of
           Inl e \<Rightarrow> Inl e
         | Inr (s, rest) \<Rightarrow> Inr (PStr s, rest))
      else if starts CHR ''{'' cs then
        (let r = skip_ws (tl cs) in
         if starts CHR ''}'' r then Inr (PDict [], tl r) else parse_members n [] r)
      else if starts CHR ''['' cs then
        (let r = skip_ws (tl cs) in
         if starts CHR '']'' r then Inr (PList [], tl r) else parse_items n [] r)
      else if take 4 cs = ''null'' then Inr (PNone, drop 4 cs)
      else if take 4 cs = ''true'' then Inr (PBool True, drop 4 cs)
      else if take 5 cs = ''false'' then Inr (PBool False, drop 5 cs)
      else
        (case scan_number cs of
           Some r \<Rightarrow> r
         | None \<Rightarrow>
             if take 3 cs = ''NaN'' \<or> take 8 cs = ''Infinity'' \<or> take 9 cs = ''-Infinity''
             then Inl Unsupported else Inl JSONDecodeError))"
| "parse_items 0 acc cs = Inl Unsupported"
| "parse_items (Suc n) acc cs =
     (case parse_value n cs of
        Inl e \<Rightarrow> Inl e
      | Inr (v, rest) \<Rightarrow>
          (let r = skip_ws rest in
           if starts CHR '']'' r then Inr (PList (acc @ [v]), tl r)
           else if starts CHR '','' r then parse_items n (acc @ [v]) (skip_ws (tl r))
           else Inl JSONDecodeError))"
| "parse_members 0 acc cs = Inl Unsupported"
| "parse_members (Suc n) acc cs =
     (if starts CHR 0x22 cs then
        (case scan_string [] (tl cs) of
           Inl e \<Rightarrow> Inl e
         | Inr (k, rest) \<Rightarrow>
             (let r = skip_ws rest in
              if starts CHR '':'' r then
                (case parse_value n (skip_ws (tl r)) of
                   Inl e \<Rightarrow> Inl e
                 | Inr (v, rest1) \<Rightarrow>
                     (let r1 = skip_ws rest1 in
                      if starts CHR ''}'' r1 then Inr (PDict (dict_set acc k v), tl r1)
                      else if starts CHR '','' r1 then
                        parse_members n (dict_set acc k v) (skip_ws (tl r1))
                      else Inl JSONDecodeError))
              else Inl JSONDecodeError))
      else Inl JSONDecodeError)"

text \<open>
  \<^verbatim>\<open>json.load(file)\<close> on the text of the file: white space, one value, white space, and
  nothing more.
\<close>

definition json_load :: "string \<Rightarrow> error + pyval" where
  "json_load t =
     (case parse_value (Suc (2 * length t)) (skip_ws t) of
        Inl e \<Rightarrow> Inl e
      | Inr (v, rest) \<Rightarrow> if skip_ws rest = [] then Inr v else Inl JSONDecodeError)"



text \<open>What follows a value in an encoded text: nothing, a comma or a line feed.\<close>

definition ends_value :: "string \<Rightarrow> bool" where
  "ends_value rest = (case rest of [] \<Rightarrow> True | c # r \<Rightarrow> c = CHR '','' \<or> c = CHR 0x0A)"

section \<open>The record store\<close>

text \<open>
  The file system is the text of \<^verbatim>\<open>course_catalog.json\<close>, or its absence
  (\<^verbatim>\<open>os.path.exists\<close>).
\<close>

type_synonym filesystem = "string option"

text \<open>\<^verbatim>\<open>len(v)\<close>: strings, lists and dictionaries have a length, the other values raise.\<close>

fun py_len :: "pyval \<Rightarrow> error + nat" where
  "py_len (PStr s) = Inr (length s)"
| "py_len (PList xs) = Inr (length xs)"
| "py_len (PDict d) = Inr (length d)"
| "py_len _ = Inl TypeError"

text \<open>
  \<^verbatim>\<open>load_courses()\<close>: the empty list when the file does not exist; otherwise the decoded
  content, whose length is taken for the span attribute \<open>course.count\<close>.
\<close>

fun load_courses :: "filesystem \<Rightarrow> error + pyval" where
  "load_courses None = Inr (PList [])"
| "load_courses (Some f) =
     (case json_load f of
        Inl e \<Rightarrow> Inl e
      | Inr courses \<Rightarrow>
          (case py_len courses of Inl e \<Rightarrow> Inl e | Inr n \<Rightarrow> Inr courses))"









section \<open>The add operation\<close>


datatype http_method = GET | POST











section \<open>Example records\<close>

definition course_ok :: dict where
  "course_ok = [(''code'', PStr ''CS101''), (''name'', PStr ''Algo''),
     (''instructor'', PStr ''Dr. X''), (''semester'', PStr ''Fall'')]"

definition course_no_code :: dict where
  "course_no_code = [(''code'', PStr []), (''name'', PStr ''Algo''),
     (''instructor'', PStr ''Dr. X'')]"

definition course_extra_blank :: dict where
  "course_extra_blank = [(''code'', PStr ''CS101''), (''name'', PStr ''Algo''),
     (''instructor'', PStr ''Dr. X''), (''semester'', PStr []), (''room_colour'', PStr '' '')]"

definition course_no_code_none :: dict where
  "course_no_code_none = [(''code'', PStr []), (''name'', PStr ''Algo''),
     (''instructor'', PStr ''Dr. X''), (''semester'', PNone)]"

definition course_none :: dict where
  "course_none = [(''code'', PStr ''CS101''), (''name'', PStr ''Algo''),
     (''instructor'', PStr ''Dr. X''), (''semester'', PNone)]"



section \<open>Example catalogs\<close>












section \<open>Facts about strings\<close>

lemma all_dropWhile: "(\<forall>x\<in>set (dropWhile P s). P x) \<longleftrightarrow> (\<forall>x\<in>set s. P x)"
  by (induction s) auto

lemma strip_empty_iff: "strip s = [] \<longleftrightarrow> blank s"
  by (simp add: strip_def blank_def list_all_iff dropWhile_eq_Nil_conv all_dropWhile)

lemma blank_Nil: "blank []"
  by (simp add: blank_def)

section \<open>Facts about the validator\<close>

lemma strip_get_nonstr:
  "nonstr_at data f \<Longrightarrow> py_strip (dict_get data f (PStr [])) = Inl AttributeError"
  by (cases "map_of data f"; cases "the (map_of data f)")
     (simp_all add: nonstr_at_def dict_get_def)

lemma strip_get_str:
  "\<not> nonstr_at data f \<Longrightarrow>
     \<exists>s. py_strip (dict_get data f (PStr [])) = Inr s \<and> (s = [] \<longleftrightarrow> missing data f)"
  by (cases "map_of data f"; cases "the (map_of data f)")
     (simp_all add: nonstr_at_def dict_get_def missing_def strip_empty_iff blank_Nil)

lemma empty_of_char:
  "empty_of data flds =
     (if \<exists>f\<in>set flds. nonstr_at data f then Inl AttributeError
      else Inr (filter (missing data) flds))"
proof (induction flds)
  case Nil
  show ?case by simp
next
  case (Cons f flds)
  show ?case
  proof (cases "nonstr_at data f")
    case True
    then show ?thesis by (simp add: strip_get_nonstr)
  next
    case False
    from strip_get_str [OF False] obtain s where
      s: "py_strip (dict_get data f (PStr [])) = Inr s" "s = [] \<longleftrightarrow> missing data f"
      by blast
    show ?thesis using False s Cons by simp
  qed
qed

lemma key_not_missing:
  "k \<in> set (map fst data) \<Longrightarrow> missing data k = supplied_blank data k"
  by (auto simp: missing_def supplied_blank_def map_of_eq_None_iff split: option.splits)

lemma absent_not_blank:
  "k \<notin> set (map fst data) \<Longrightarrow> \<not> supplied_blank data k \<and> \<not> nonstr_at data k"
  by (auto simp: supplied_blank_def nonstr_at_def map_of_eq_None_iff[symmetric]
      simp del: map_of_eq_None_iff split: option.splits)

lemma all_str_nonstr: "all_str data \<Longrightarrow> \<not> nonstr_at data k"
  by (auto simp: all_str_def nonstr_at_def list_all_iff split: option.splits
      dest!: map_of_SomeD)

lemma filled_not_missing: "filled data k \<Longrightarrow> \<not> missing data k \<and> \<not> nonstr_at data k"
  by (auto simp: filled_def missing_def nonstr_at_def split: option.splits pyval.splits)

lemma not_filled_cases: "\<not> filled data k \<Longrightarrow> missing data k \<or> nonstr_at data k"
  by (auto simp: filled_def missing_def nonstr_at_def split: option.splits pyval.splits)

lemma validate_course_char:
  "validate_course data =
     (if \<exists>f\<in>set required_fields. nonstr_at data f then Inl AttributeError
      else if filter (missing data) required_fields \<noteq> [] then
        Inr (PBool False,
             ''Error: Missing required fields - '' @ join '', '' (filter (missing data) required_fields))
      else if \<exists>k\<in>set (map fst data). nonstr_at data k then Inl AttributeError
      else if filter (supplied_blank data) (map fst data) \<noteq> [] then
        Inr (PStr ''warning'',
             ''Warning: Fields '' @ join '', '' (filter (supplied_blank data) (map fst data))
               @ '' are empty'')
      else Inr (PBool True, ''Validation successful''))"
proof -
  have eq: "filter (missing data) (map fst data) = filter (supplied_blank data) (map fst data)"
    by (rule filter_cong) (simp_all add: key_not_missing)
  show ?thesis
    unfolding validate_course_def empty_of_char eq by simp
qed

lemma filled_iff: "filled data k \<longleftrightarrow> \<not> missing data k \<and> \<not> nonstr_at data k"
  using filled_not_missing not_filled_cases by blast

lemma filled_not_blank: "filled data k \<Longrightarrow> \<not> supplied_blank data k"
  by (auto simp: filled_def supplied_blank_def split: option.splits pyval.splits)

lemma no_blank_key_iff:
  assumes "\<forall>f\<in>set required_fields. filled data f"
  shows "filter (supplied_blank data) (map fst data) = [] \<longleftrightarrow>
         (\<forall>k. k \<notin> set required_fields \<longrightarrow> \<not> supplied_blank data k)"
proof
  assume e: "filter (supplied_blank data) (map fst data) = []"
  show "\<forall>k. k \<notin> set required_fields \<longrightarrow> \<not> supplied_blank data k"
  proof (intro allI impI)
    fix k
    show "\<not> supplied_blank data k"
    proof (cases "k \<in> set (map fst data)")
      case True
      with e show ?thesis by (auto simp: filter_empty_conv)
    next
      case False
      then show ?thesis using absent_not_blank by blast
    qed
  qed
next
  assume a: "\<forall>k. k \<notin> set required_fields \<longrightarrow> \<not> supplied_blank data k"
  have "\<not> supplied_blank data k" for k
    using a assms filled_not_blank by (cases "k \<in> set required_fields") blast+
  then show "filter (supplied_blank data) (map fst data) = []"
    by (simp add: filter_empty_conv)
qed

lemma blank_keys_set:
  "set (filter (supplied_blank data) (map fst data)) = {k. supplied_blank data k}"
  using absent_not_blank by auto

section \<open>Facts about the JSON text\<close>






















lemma skip_ws_Cons: "\<not> is_ws c \<Longrightarrow> skip_ws (c # cs) = c # cs"
  by (simp add: skip_ws_def)



lemma newline_indent_ends: "ends_value (newline_indent l @ cs)"
  by (simp add: newline_indent_def ends_value_def)

lemma encode_str_first: "encode_str s = CHR 0x22 # concat (map esc_char s) @ [CHR 0x22]"
  by (simp add: encode_str_def)



lemma skip_ws_encode_str: "skip_ws (encode_str s @ cs) = encode_str s @ cs"
  by (simp add: encode_str_def skip_ws_Cons is_ws_def)




























subsection \<open>The fuel of the decoder is enough\<close>

text \<open>
  Every call of the decoder that succeeds takes at least one character, so the fuel that
  \<open>json_load\<close> starts with is never used up: with any larger fuel the result is the
  same.
\<close>

lemma skip_ws_length: "length (skip_ws cs) \<le> length cs"
  by (simp add: skip_ws_def length_dropWhile_le)

lemma starts_tl: "starts c cs \<Longrightarrow> length (tl cs) < length cs"
  by (cases cs) (simp_all add: starts_def)

lemma scan_string_consumes:
  "scan_string acc cs = Inr (s, rest) \<Longrightarrow> length rest < length cs"
proof (induction acc cs rule: scan_string.induct)
  case (1 acc)
  then show ?case by simp
next
  case (2 acc c cs)
  then show ?case
    by (auto split: if_splits list.splits option.splits simp: less_Suc_eq)
qed

lemma scan_digits_consumes:
  assumes a: "scan_digits cs = Some (ds, rest)"
  shows "length rest < length cs"
proof (cases cs)
  case Nil
  then show ?thesis using a by (simp add: scan_digits_def)
next
  case (Cons c cs1)
  show ?thesis
  proof (cases "c = CHR ''0''")
    case True
    with a Cons show ?thesis by (simp add: scan_digits_def)
  next
    case False
    with a Cons have d: "is_digit c" and r: "rest = dropWhile is_digit cs1"
      by (auto simp: scan_digits_def split: if_splits)
    have "length (dropWhile is_digit cs1) \<le> length cs1" by (rule length_dropWhile_le)
    with r Cons show ?thesis by simp
  qed
qed

lemma scan_number_consumes:
  assumes "scan_number cs = Some (Inr (v, rest))"
  shows "length rest < length cs"
proof -
  let ?body = "if starts CHR ''-'' cs then tl cs else cs"
  from assms obtain ds where "scan_digits ?body = Some (ds, rest)"
    by (auto simp: scan_number_def Let_def split: option.splits if_splits)
  from scan_digits_consumes [OF this] have "length rest < length ?body" .
  moreover have "length ?body \<le> length cs" by simp
  ultimately show ?thesis by simp
qed


lemma take_drop_length: "take k cs = lit \<Longrightarrow> lit \<noteq> [] \<Longrightarrow> length (drop k cs) < length cs"
  by (cases cs; cases k) auto

lemma parse_consumes:
  "parse_value n cs = Inr (v, rest) \<Longrightarrow> length rest < length cs"
  "parse_items n acc cs = Inr (v, rest) \<Longrightarrow> length rest < length cs"
  "parse_members n dacc cs = Inr (v, rest) \<Longrightarrow> length rest < length cs"
proof (induction n cs and n acc cs and n dacc cs arbitrary: v rest and v rest and v rest
    rule: parse_value_parse_items_parse_members.induct)
  case (1 cs)
  then show ?case by simp
next
  case (2 n cs)
  note tl = starts_tl [of _ cs]
  note sk = skip_ws_length [of "tl cs"]
  consider (str) "starts CHR 0x22 cs"
    | (obj) "\<not> starts CHR 0x22 cs" "starts CHR ''{'' cs"
    | (arr) "\<not> starts CHR 0x22 cs" "\<not> starts CHR ''{'' cs" "starts CHR ''['' cs"
    | (atom) "\<not> starts CHR 0x22 cs" "\<not> starts CHR ''{'' cs" "\<not> starts CHR ''['' cs"
    by blast
  then show ?case
  proof cases
    case str
    with 2(3) obtain s where "scan_string [] (tl cs) = Inr (s, rest)"
      by (auto split: sum.splits)
    from scan_string_consumes [OF this] tl [OF str] show ?thesis by simp
  next
    case obj
    show ?thesis
    proof (cases "starts CHR ''}'' (skip_ws (tl cs))")
      case True
      with obj 2(3) have "rest = tl (skip_ws (tl cs))" by (simp add: Let_def)
      then show ?thesis using tl [OF obj(2)] sk starts_tl [OF True] by simp
    next
      case False
      with obj 2(3) have "parse_members n [] (skip_ws (tl cs)) = Inr (v, rest)"
        by (simp add: Let_def)
      from 2(1) [OF obj(1) obj(2) refl False this] show ?thesis
        using tl [OF obj(2)] sk by simp
    qed
  next
    case arr
    show ?thesis
    proof (cases "starts CHR '']'' (skip_ws (tl cs))")
      case True
      with arr 2(3) have "rest = tl (skip_ws (tl cs))" by (simp add: Let_def)
      then show ?thesis using tl [OF arr(3)] sk starts_tl [OF True] by simp
    next
      case False
      with arr 2(3) have "parse_items n [] (skip_ws (tl cs)) = Inr (v, rest)"
        by (simp add: Let_def)
      from 2(2) [OF arr(1) arr(2) arr(3) refl False this] show ?thesis
        using tl [OF arr(3)] sk by simp
    qed
  next
    case atom
    with 2(3) show ?thesis
      by (auto split: if_splits option.splits
          dest: scan_number_consumes take_drop_length)
  qed
next
  case (3 acc cs)
  then show ?case by simp
next
  case (4 n acc cs)
  from 4(3) obtain x r0 where p: "parse_value n cs = Inr (x, r0)"
    by (auto split: sum.splits)
  from 4(1) [OF p] have l: "length r0 < length cs" .
  note sk = skip_ws_length [of r0]
  show ?case
  proof (cases "starts CHR '']'' (skip_ws r0)")
    case True
    with p 4(3) have "rest = tl (skip_ws r0)" by (simp add: Let_def)
    then show ?thesis using l sk starts_tl [OF True] by simp
  next
    case False
    show ?thesis
    proof (cases "starts CHR '','' (skip_ws r0)")
      case True
      with False p 4(3) have
        q: "parse_items n (acc @ [x]) (skip_ws (tl (skip_ws r0))) = Inr (v, rest)"
        by (simp add: Let_def)
      from 4(2) [OF p refl refl False True q]
      show ?thesis
        using l sk starts_tl [OF True] skip_ws_length [of "tl (skip_ws r0)"] by simp
    next
      case F2: False
      with False p 4(3) show ?thesis by (simp add: Let_def)
    qed
  qed
next
  case (5 dacc cs)
  then show ?case by simp
next
  case (6 n dacc cs)
  from 6(3) have q: "starts CHR 0x22 cs" by (auto split: if_splits)
  with 6(3) obtain key r0 where s: "scan_string [] (tl cs) = Inr (key, r0)"
    by (auto split: sum.splits)
  from scan_string_consumes [OF s] starts_tl [OF q] have l0: "length r0 < length cs" by simp
  from q s 6(3) have c: "starts CHR '':'' (skip_ws r0)"
    by (auto simp: Let_def split: if_splits)
  let ?a = "skip_ws (tl (skip_ws r0))"
  have la: "length ?a < length cs"
    using l0 skip_ws_length [of r0] starts_tl [OF c] skip_ws_length [of "tl (skip_ws r0)"]
    by simp
  from q s c 6(3) obtain x r1 where p: "parse_value n ?a = Inr (x, r1)"
    by (auto simp: Let_def split: sum.splits)
  from 6(1) [OF q s refl refl c p] have l1: "length r1 < length ?a" .
  show ?case
  proof (cases "starts CHR ''}'' (skip_ws r1)")
    case True
    with q s c p 6(3) have "rest = tl (skip_ws r1)" by (simp add: Let_def)
    then show ?thesis using l1 la skip_ws_length [of r1] starts_tl [OF True] by simp
  next
    case False
    show ?thesis
    proof (cases "starts CHR '','' (skip_ws r1)")
      case True
      with False q s c p 6(3) have
        m: "parse_members n (dict_set dacc key x) (skip_ws (tl (skip_ws r1))) = Inr (v, rest)"
        by (simp add: Let_def)
      from 6(2) [OF q s refl refl c p refl refl False True m]
      show ?thesis
        using l1 la skip_ws_length [of r1] starts_tl [OF True]
          skip_ws_length [of "tl (skip_ws r1)"] by simp
    next
      case F2: False
      with False q s c p 6(3) show ?thesis by (simp add: Let_def)
    qed
  qed
qed


lemma fuel_stable_aux:
  "(\<forall>m cs. 2 * length cs < n \<and> 2 * length cs < m \<longrightarrow> parse_value n cs = parse_value m cs)
   \<and> (\<forall>m acc cs. 2 * length cs + 1 < n \<and> 2 * length cs + 1 < m \<longrightarrow>
          parse_items n acc cs = parse_items m acc cs)
   \<and> (\<forall>m dacc cs. 2 * length cs + 1 < n \<and> 2 * length cs + 1 < m \<longrightarrow>
          parse_members n dacc cs = parse_members m dacc cs)"
proof (induction n)
  case 0
  show ?case by simp
next
  case (Suc k)
  then have ihv: "\<And>m cs. 2 * length cs < k \<Longrightarrow> 2 * length cs < m \<Longrightarrow>
      parse_value k cs = parse_value m cs"
    and ihi: "\<And>m acc cs. 2 * length cs + 1 < k \<Longrightarrow> 2 * length cs + 1 < m \<Longrightarrow>
      parse_items k acc cs = parse_items m acc cs"
    and ihm: "\<And>m dacc cs. 2 * length cs + 1 < k \<Longrightarrow> 2 * length cs + 1 < m \<Longrightarrow>
      parse_members k dacc cs = parse_members m dacc cs"
    by blast+
  have v: "parse_value (Suc k) cs = parse_value m cs"
    if a: "2 * length cs < Suc k" "2 * length cs < m" for m cs
  proof -
    from a(2) obtain j where m: "m = Suc j" by (cases m) auto
    have inner: "parse_members k [] (skip_ws (tl cs)) = parse_members j [] (skip_ws (tl cs))
               \<and> parse_items k [] (skip_ws (tl cs)) = parse_items j [] (skip_ws (tl cs))"
      if s: "starts c cs" for c
    proof -
      have "length (skip_ws (tl cs)) < length cs"
        using starts_tl [OF s] skip_ws_length [of "tl cs"] by simp
      then have "2 * length (skip_ws (tl cs)) + 1 < k" "2 * length (skip_ws (tl cs)) + 1 < j"
        using a m by simp_all
      then show ?thesis using ihi ihm by blast
    qed
    show ?thesis
      unfolding m parse_value.simps using inner by (simp add: Let_def)
  qed
  have i: "parse_items (Suc k) acc cs = parse_items m acc cs"
    if a: "2 * length cs + 1 < Suc k" "2 * length cs + 1 < m" for m acc cs
  proof -
    from a(2) obtain j where m: "m = Suc j" by (cases m) auto
    have pv: "parse_value k cs = parse_value j cs"
      using ihv [of cs j] a m by simp
    show ?thesis
    proof (cases "parse_value j cs")
      case (Inl e)
      then show ?thesis unfolding m using pv by simp
    next
      case (Inr p)
      obtain x r0 where p: "p = (x, r0)" by (cases p)
      from parse_consumes(1) [of j cs x r0] Inr p have l: "length r0 < length cs" by simp
      have "parse_items k (acc @ [x]) (skip_ws (tl (skip_ws r0)))
            = parse_items j (acc @ [x]) (skip_ws (tl (skip_ws r0)))"
        if s: "starts CHR '','' (skip_ws r0)"
      proof -
        have "length (skip_ws (tl (skip_ws r0))) < length cs"
          using l skip_ws_length [of r0] starts_tl [OF s] skip_ws_length [of "tl (skip_ws r0)"]
          by simp
        then show ?thesis using ihi a m by simp
      qed
      then show ?thesis
        unfolding m using pv Inr p by (simp add: Let_def)
    qed
  qed
  have mm: "parse_members (Suc k) dacc cs = parse_members m dacc cs"
    if a: "2 * length cs + 1 < Suc k" "2 * length cs + 1 < m" for m dacc cs
  proof -
    from a(2) obtain j where m: "m = Suc j" by (cases m) auto
    show ?thesis
    proof (cases "starts CHR 0x22 cs")
      case False
      then show ?thesis unfolding m by simp
    next
      case q: True
      show ?thesis
      proof (cases "scan_string [] (tl cs)")
        case (Inl e)
        then show ?thesis unfolding m using q by simp
      next
        case (Inr kr)
        obtain key r0 where kr: "kr = (key, r0)" by (cases kr)
        from scan_string_consumes [of "[]" "tl cs" key r0] Inr kr starts_tl [OF q]
        have l0: "length r0 < length cs" by simp
        show ?thesis
        proof (cases "starts CHR '':'' (skip_ws r0)")
          case False
          then show ?thesis unfolding m using q Inr kr by (simp add: Let_def)
        next
          case c: True
          let ?a = "skip_ws (tl (skip_ws r0))"
          have la: "length ?a < length cs"
            using l0 skip_ws_length [of r0] starts_tl [OF c]
              skip_ws_length [of "tl (skip_ws r0)"] by simp
          have pv: "parse_value k ?a = parse_value j ?a"
            using ihv [of ?a j] la a m by simp
          show ?thesis
          proof (cases "parse_value j ?a")
            case (Inl e)
            then show ?thesis unfolding m using q Inr kr c pv by (simp add: Let_def)
          next
            case pr: (Inr p)
            obtain x r1 where p: "p = (x, r1)" by (cases p)
            from parse_consumes(1) [of j ?a x r1] pr p have l1: "length r1 < length ?a" by simp
            have "parse_members k (dict_set dacc key x) (skip_ws (tl (skip_ws r1)))
                  = parse_members j (dict_set dacc key x) (skip_ws (tl (skip_ws r1)))"
              if s: "starts CHR '','' (skip_ws r1)"
            proof -
              have "length (skip_ws (tl (skip_ws r1))) < length cs"
                using l1 la skip_ws_length [of r1] starts_tl [OF s]
                  skip_ws_length [of "tl (skip_ws r1)"] by simp
              then show ?thesis using ihm a m by simp
            qed
            then show ?thesis
              unfolding m using q Inr kr c pv pr p by (simp add: Let_def)
          qed
        qed
      qed
    qed
  qed
  show ?case using v i mm by blast
qed

lemma fuel_stable:
  assumes "2 * length cs < n" and "2 * length cs < m"
  shows "parse_value n cs = parse_value m cs"
  using fuel_stable_aux [of n] assms by blast

lemma json_load_fuel:
  assumes "2 * length t < n"
  shows "json_load t =
         (case parse_value n (skip_ws t) of
            Inl e \<Rightarrow> Inl e
          | Inr (v, rest) \<Rightarrow> if skip_ws rest = [] then Inr v else Inl JSONDecodeError)"
proof -
  have l: "length (skip_ws t) \<le> length t" by (rule skip_ws_length)
  have "parse_value (Suc (2 * length t)) (skip_ws t) = parse_value n (skip_ws t)"
    by (rule fuel_stable) (use assms l in simp_all)
  then show ?thesis by (simp add: json_load_def del: parse_value.simps)
qed

section \<open>Facts about the record store\<close>
















section \<open>Facts about the add operation\<close>




lemmas field_defs = required_fields_def filled_def missing_def nonstr_at_def supplied_blank_def
  all_str_def blank_def is_space_def

section \<open>The claims about the validator\<close>

text \<open>
  C1. For a record whose values are strings and whose required fields \<open>code\<close>, \<open>name\<close>,
  \<open>instructor\<close> are present and not blank, \<open>validate_course\<close> returns the success pair
  \<^verbatim>\<open>(True, "Validation successful")\<close> if and only if no other field of the record holds
  an empty or white-space-only string.
\<close>

theorem validate_success_iff:
  assumes "\<forall>f\<in>set required_fields. filled data f" and "all_str data"
  shows "validate_course data = Inr (PBool True, ''Validation successful'') \<longleftrightarrow>
         (\<forall>k. k \<notin> set required_fields \<longrightarrow> \<not> supplied_blank data k)"
proof -
  have req: "\<not> (\<exists>f\<in>set required_fields. nonstr_at data f)"
    "filter (missing data) required_fields = []"
    using assms(1) by (simp_all add: filled_iff filter_empty_conv)
  have keys: "\<not> (\<exists>k\<in>set (map fst data). nonstr_at data k)"
    using assms(2) all_str_nonstr by blast
  have "validate_course data = Inr (PBool True, ''Validation successful'') \<longleftrightarrow>
        filter (supplied_blank data) (map fst data) = []"
    unfolding validate_course_char using req keys by simp
  then show ?thesis
    using no_blank_key_iff [OF assms(1)] by blast
qed

theorem validate_success_iff_witness:
  "validate_course course_ok = Inr (PBool True, ''Validation successful'')"
proof -
  have h1: "\<forall>f\<in>set required_fields. filled course_ok f"
    by (simp add: field_defs course_ok_def)
  have h2: "all_str course_ok"
    by (simp add: field_defs course_ok_def)
  have h3: "\<forall>k. k \<notin> set required_fields \<longrightarrow> \<not> supplied_blank course_ok k"
    by (simp add: field_defs course_ok_def)
  show ?thesis
    using validate_success_iff [OF h1 h2] h3 by blast
qed

text \<open>
  C2, as amended. When each required field is absent or holds a string, and at least one
  of them is absent or blank, \<open>validate_course\<close> returns the error pair: \<^verbatim>\<open>False\<close> and
  the message that lists exactly the missing required fields, in the order \<open>code\<close>,
  \<open>name\<close>, \<open>instructor\<close>, joined by a comma and a space, each name as it is written in
  \<open>required_fields\<close> (lower case; no change of case is applied).
\<close>

theorem validate_error_lists_missing:
  assumes "\<forall>f\<in>set required_fields. \<not> nonstr_at data f"
    and "\<exists>f\<in>set required_fields. missing data f"
  shows "validate_course data =
         Inr (PBool False,
              ''Error: Missing required fields - ''
                @ join '', '' (filter (missing data) required_fields))"
proof -
  have "filter (missing data) required_fields \<noteq> []"
    using assms(2) by (simp add: filter_empty_conv)
  then show ?thesis
    unfolding validate_course_char using assms(1) by simp
qed

theorem validate_error_lists_missing_witness:
  "validate_course course_no_code = Inr (PBool False, ''Error: Missing required fields - code'')"
proof -
  have h1: "\<forall>f\<in>set required_fields. \<not> nonstr_at course_no_code f"
    by (simp add: field_defs course_no_code_def)
  have h2: "\<exists>f\<in>set required_fields. missing course_no_code f"
    by (simp add: field_defs course_no_code_def)
  have "filter (missing course_no_code) required_fields = [''code'']"
    by (simp add: field_defs course_no_code_def)
  then show ?thesis
    using validate_error_lists_missing [OF h1 h2] by simp
qed

text \<open>
  C2, as stated, fails: for the record with an empty \<open>code\<close> the message of
  \<open>validate_course\<close> names the field \<open>code\<close>, while the name in the case used for
  display (\<^verbatim>\<open>field.capitalize()\<close>, applied by \<^verbatim>\<open>add_course\<close> only) is \<open>Code\<close>.
\<close>

theorem validate_error_not_capitalized:
  "validate_course course_no_code = Inr (PBool False, ''Error: Missing required fields - code'')
   \<and> map capitalize [''code''] = [''Code'']
   \<and> validate_course course_no_code \<noteq>
       Inr (PBool False, ''Error: Missing required fields - '' @ join '', '' (map capitalize [''code'']))"
  by code_simp

text \<open>
  C8. For a record whose values are strings and whose required fields are present and
  not blank, as soon as some field holds a blank string \<open>validate_course\<close> returns the
  warning pair, and the fields it lists are the keys of the submitted record that hold a
  blank string, in the order of the record: every such key, whatever its name, and no
  other.
\<close>

theorem validate_warning_fields:
  assumes "\<forall>f\<in>set required_fields. filled data f" and "all_str data"
    and "\<exists>k. supplied_blank data k"
  shows "validate_course data =
           Inr (PStr ''warning'',
                ''Warning: Fields ''
                  @ join '', '' (filter (supplied_blank data) (map fst data)) @ '' are empty'')
         \<and> set (filter (supplied_blank data) (map fst data)) = {k. supplied_blank data k}"
proof -
  have req: "\<not> (\<exists>f\<in>set required_fields. nonstr_at data f)"
    "filter (missing data) required_fields = []"
    using assms(1) by (simp_all add: filled_iff filter_empty_conv)
  have keys: "\<not> (\<exists>k\<in>set (map fst data). nonstr_at data k)"
    using assms(2) all_str_nonstr by blast
  have "set (filter (supplied_blank data) (map fst data)) \<noteq> {}"
    unfolding blank_keys_set using assms(3) by blast
  then have ne: "filter (supplied_blank data) (map fst data) \<noteq> []"
    by (metis list.set(1))
  have "validate_course data =
           Inr (PStr ''warning'',
                ''Warning: Fields ''
                  @ join '', '' (filter (supplied_blank data) (map fst data)) @ '' are empty'')"
    unfolding validate_course_char using req keys ne by simp
  then show ?thesis using blank_keys_set by blast
qed

theorem validate_warning_fields_witness:
  "validate_course course_extra_blank =
     Inr (PStr ''warning'', ''Warning: Fields semester, room_colour are empty'')"
proof -
  have h1: "\<forall>f\<in>set required_fields. filled course_extra_blank f"
    by (simp add: field_defs course_extra_blank_def)
  have h2: "all_str course_extra_blank"
    by (simp add: field_defs course_extra_blank_def)
  have h3: "\<exists>k. supplied_blank course_extra_blank k"
    by (rule exI [of _ "''semester''"]) (simp add: field_defs course_extra_blank_def)
  have "filter (supplied_blank course_extra_blank) (map fst course_extra_blank)
        = [''semester'', ''room_colour'']"
    by (simp add: field_defs course_extra_blank_def)
  then show ?thesis
    using validate_warning_fields [OF h1 h2 h3] by simp
qed

text \<open>
  C9, as amended. \<open>validate_course\<close> raises nothing but \<^verbatim>\<open>AttributeError\<close>, and it raises
  exactly when a required field holds a value that is not a string, or when all three
  required fields are present and not blank and some field of the record holds a value
  that is not a string. In particular it returns an outcome for every record whose
  values are all strings.
\<close>

theorem validate_course_raises_iff:
  "(validate_course data = Inl AttributeError \<longleftrightarrow>
      (\<exists>f\<in>set required_fields. nonstr_at data f) \<or>
      ((\<forall>f\<in>set required_fields. filled data f) \<and> (\<exists>k. nonstr_at data k)))
   \<and> (\<forall>e. validate_course data = Inl e \<longrightarrow> e = AttributeError)
   \<and> (all_str data \<longrightarrow> (\<exists>r. validate_course data = Inr r))"
proof -
  have k: "(\<exists>k\<in>set (map fst data). nonstr_at data k) \<longleftrightarrow> (\<exists>k. nonstr_at data k)"
    using absent_not_blank by blast
  have f: "(\<forall>f\<in>set required_fields. filled data f) \<longleftrightarrow>
           \<not> (\<exists>f\<in>set required_fields. nonstr_at data f) \<and> filter (missing data) required_fields = []"
    by (auto simp: filled_iff filter_empty_conv)
  have a: "validate_course data = Inl AttributeError \<longleftrightarrow>
      (\<exists>f\<in>set required_fields. nonstr_at data f) \<or>
      ((\<forall>f\<in>set required_fields. filled data f) \<and> (\<exists>k. nonstr_at data k))"
    unfolding validate_course_char f k [symmetric] by simp
  have b: "\<forall>e. validate_course data = Inl e \<longrightarrow> e = AttributeError"
    unfolding validate_course_char by (simp split: if_splits)
  have c: "all_str data \<longrightarrow> (\<exists>r. validate_course data = Inr r)"
    unfolding validate_course_char using all_str_nonstr by (simp split: if_splits)
  show ?thesis using a b c by blast
qed

theorem validate_course_raises_iff_witness:
  "validate_course course_none = Inl AttributeError
   \<and> (\<exists>r. validate_course course_ok = Inr r)"
proof -
  have h1: "\<forall>f\<in>set required_fields. filled course_none f"
    by (simp add: field_defs course_none_def)
  have h2: "\<exists>k. nonstr_at course_none k"
    by (rule exI [of _ "''semester''"]) (simp add: field_defs course_none_def)
  have h3: "all_str course_ok"
    by (simp add: field_defs course_ok_def)
  show ?thesis
    using validate_course_raises_iff [of course_none] validate_course_raises_iff [of course_ok]
      h1 h2 h3 by blast
qed

text \<open>
  C9, as stated, fails: the record below maps \<open>semester\<close> to \<^verbatim>\<open>None\<close>, and
  \<open>validate_course\<close> returns the error outcome for its empty \<open>code\<close> without raising,
  as the fields that are not required are never looked at on that path.
\<close>

theorem validate_nonstring_no_raise:
  "\<not> all_str course_no_code_none
   \<and> validate_course course_no_code_none =
       Inr (PBool False, ''Error: Missing required fields - code'')"
  by (simp add: validate_course_def course_no_code_none_def required_fields_def dict_get_def
      strip_def is_space_def all_str_def)

section \<open>The claims about the record store\<close>



text \<open>
  C3, as amended. \<open>load_courses\<close> returns the empty list, without raising, when the
  catalog file is absent and when its text is the empty JSON array \<^verbatim>\<open>[]\<close>, which is what
  \<open>json_dump\<close> writes for the empty list.
\<close>

theorem load_courses_empty:
  "load_courses None = Inr (PList [])
   \<and> load_courses (Some ''[]'') = Inr (PList [])
   \<and> json_dump (PList []) = ''[]''"
  by (simp add: json_load_def json_dump_def starts_def skip_ws_def is_ws_def eval_nat_numeral)

text \<open>
  C3, as stated, fails: on a catalog file that exists and is empty (its text has no
  character) \<open>load_courses\<close> raises \<^verbatim>\<open>JSONDecodeError\<close>.
\<close>

theorem load_courses_empty_file_raises:
  "load_courses (Some []) = Inl JSONDecodeError"
  by (simp add: json_load_def starts_def skip_ws_def scan_number_def scan_digits_def)









section \<open>The claim about the add operation\<close>






end
